theory Spec2Isabelle
  imports Main
begin

section \<open>The CSS selector builder of 06-objects-tasks.js\<close>

subsection \<open>Data\<close>

text \<open>
  An entry of \<open>this.selectors\<close> is the object literal \<open>{type, value, priority}\<close> that
  \<open>add\<close> pushes. \<open>raw\<close> calls \<open>add\<close> with two arguments, so the priority of a raw entry
  is \<open>undefined\<close>: the field is an option. The field \<open>value\<close> is written \<open>value_s\<close>.
\<close>

record selector =
  type :: string
  value_s :: string
  priority :: "nat option"

text \<open>The three fields the constructor of \<open>Builder\<close> sets.\<close>

record Builder =
  selectors :: "selector list"
  repeatError :: string
  orderError :: string

text \<open>
  \<open>throw new Error(message)\<close> is the value \<open>Error message\<close>. \<open>TypeError\<close> is what a method
  call on something that is not an object of the heap raises; it only occurs in the
  heap layer below.
\<close>

datatype error = Error string | TypeError

subsection \<open>The class Builder\<close>

text \<open>
  Every method reads and writes \<open>this\<close> only, so a method is a function of the object's
  state that returns its result together with the state it leaves. A method that returns
  \<open>this\<close> returns the unit value here; the heap layer turns it into the reference.
\<close>

definition new_Builder :: Builder where
  "new_Builder =
     \<lparr> selectors = [],
       repeatError = ''Element, id and pseudo-element should not occur more then one time inside the selector'',
       orderError = ''Selector parts should be arranged in the following order: element, id, class, attribute, pseudo-class, pseudo-element'' \<rparr>"

definition add :: "string \<Rightarrow> string \<Rightarrow> nat option \<Rightarrow> Builder \<Rightarrow> Builder" where
  "add t v p b =
     b\<lparr> selectors := selectors b @ [\<lparr> type = t, value_s = v, priority = p \<rparr>] \<rparr>"

definition isSelectorExist :: "string \<Rightarrow> Builder \<Rightarrow> bool" where
  "isSelectorExist t b = list_ex (\<lambda>obj. type obj = t) (selectors b)"

text \<open>
  JavaScript's \<open>x > n\<close> for a field \<open>x\<close> that is a number or \<open>undefined\<close>: \<open>undefined\<close>
  converts to NaN and every comparison with NaN is false.
\<close>

fun js_gt :: "nat option \<Rightarrow> nat \<Rightarrow> bool" where
  "js_gt None n = False"
| "js_gt (Some m) n = (m > n)"

text \<open>
  The name says the opposite of what the method computes: it is true when the last
  entry's priority is greater than the new one, that is when the order is wrong.
\<close>

definition isPriorityRight :: "nat \<Rightarrow> Builder \<Rightarrow> bool" where
  "isPriorityRight p b =
     (length (selectors b) \<noteq> 0 \<and>
      js_gt (priority (selectors b ! (length (selectors b) - 1))) p)"

definition element :: "string \<Rightarrow> Builder \<Rightarrow> (error + unit) \<times> Builder" where
  "element v b =
     (if isSelectorExist ''element'' b then (Inl (Error (repeatError b)), b)
      else if isPriorityRight 1 b then (Inl (Error (orderError b)), b)
      else (Inr (), add ''element'' v (Some 1) b))"

definition id_sel :: "string \<Rightarrow> Builder \<Rightarrow> (error + unit) \<times> Builder" where
  "id_sel v b =
     (if isSelectorExist ''id'' b then (Inl (Error (repeatError b)), b)
      else if isPriorityRight 2 b then (Inl (Error (orderError b)), b)
      else (Inr (), add ''id'' (''#'' @ v) (Some 2) b))"

definition class_sel :: "string \<Rightarrow> Builder \<Rightarrow> (error + unit) \<times> Builder" where
  "class_sel v b =
     (if isPriorityRight 3 b then (Inl (Error (orderError b)), b)
      else (Inr (), add ''class'' (''.'' @ v) (Some 3) b))"

definition attr :: "string \<Rightarrow> Builder \<Rightarrow> (error + unit) \<times> Builder" where
  "attr v b =
     (if isPriorityRight 4 b then (Inl (Error (orderError b)), b)
      else (Inr (), add ''attr'' (''['' @ v @ '']'') (Some 4) b))"

definition pseudoClass :: "string \<Rightarrow> Builder \<Rightarrow> (error + unit) \<times> Builder" where
  "pseudoClass v b =
     (if isPriorityRight 5 b then (Inl (Error (orderError b)), b)
      else (Inr (), add ''pseudoClass'' ('':'' @ v) (Some 5) b))"

definition pseudoElement :: "string \<Rightarrow> Builder \<Rightarrow> (error + unit) \<times> Builder" where
  "pseudoElement v b =
     (if isSelectorExist ''pseudoElement'' b then (Inl (Error (repeatError b)), b)
      else if isPriorityRight 6 b then (Inl (Error (orderError b)), b)
      else (Inr (), add ''pseudoElement'' (''::'' @ v) (Some 6) b))"

definition raw :: "string \<Rightarrow> Builder \<Rightarrow> Builder" where
  "raw v b = add ''raw'' v None b"

text \<open>The \<open>for\<close> loop of \<open>stringify\<close>: \<open>i\<close> is the index, \<open>s\<close> the string built so far.\<close>

function stringify_loop :: "selector list \<Rightarrow> nat \<Rightarrow> string \<Rightarrow> string" where
  "stringify_loop sels i s =
     (if i < length sels then stringify_loop sels (i + 1) (s @ value_s (sels ! i)) else s)"
  by pat_completeness auto
termination
  by (relation "measure (\<lambda>(sels, i, s). length sels - i)") auto

declare stringify_loop.simps [simp del]

definition stringify :: "Builder \<Rightarrow> string \<times> Builder" where
  "stringify b = (stringify_loop (selectors b) 0 '''', b\<lparr> selectors := [] \<rparr>)"

subsection \<open>Objects on a heap: cssSelectorBuilder.combine\<close>

text \<open>
  \<open>combine\<close> works on three objects: the two it is given and the one it creates, and
  \<open>stringify\<close> writes to the object it is called on. Whether the two arguments are the
  same object matters then, so objects live in a heap and are named by references. The
  heap is the list of all objects created so far; \<open>new Builder()\<close> appends one, and a
  reference is an index of that list.
\<close>

type_synonym ref = nat
type_synonym heap = "Builder list"

definition new_at :: "heap \<Rightarrow> ref \<times> heap" where
  "new_at h = (length h, h @ [new_Builder])"

text \<open>
  A call \<open>r.m(...)\<close> of a method that returns \<open>this\<close>: the method runs on the object
  at \<open>r\<close>, the object is stored back, and the reference is the result.
\<close>

definition call :: "(Builder \<Rightarrow> (error + unit) \<times> Builder) \<Rightarrow> ref \<Rightarrow> heap \<Rightarrow> (error + ref) \<times> heap" where
  "call m r h =
     (if r < length h then
        (case m (h ! r) of
           (Inl e, b') \<Rightarrow> (Inl e, h[r := b'])
         | (Inr u, b') \<Rightarrow> (Inr r, h[r := b']))
      else (Inl TypeError, h))"

definition stringify_at :: "ref \<Rightarrow> heap \<Rightarrow> (error + string) \<times> heap" where
  "stringify_at r h =
     (if r < length h then
        (case stringify (h ! r) of (s, b') \<Rightarrow> (Inr s, h[r := b']))
      else (Inl TypeError, h))"

definition raw_at :: "string \<Rightarrow> ref \<Rightarrow> heap \<Rightarrow> heap" where
  "raw_at v r h = h[r := raw v (h ! r)]"

text \<open>
  \<open>(new Builder()).raw(selector1.stringify()).raw(' ' + combinator + ' ').raw(selector2.stringify())\<close>,
  in JavaScript's evaluation order: the new object first, then each argument just
  before the call of \<open>raw\<close> that takes it.
\<close>

definition combine :: "ref \<Rightarrow> string \<Rightarrow> ref \<Rightarrow> heap \<Rightarrow> (error + ref) \<times> heap" where
  "combine selector1 combinator selector2 h =
     (case new_at h of (r, h0) \<Rightarrow>
        (case stringify_at selector1 h0 of
           (Inl e, h1) \<Rightarrow> (Inl e, h1)
         | (Inr s1, h1) \<Rightarrow>
             (case stringify_at selector2
                     (raw_at ('' '' @ combinator @ '' '') r (raw_at s1 r h1)) of
                (Inl e, h2) \<Rightarrow> (Inl e, h2)
              | (Inr s2, h2) \<Rightarrow> (Inr r, raw_at s2 r h2))))"

subsection \<open>Sequences of appends\<close>

text \<open>
  One call of one of the six appending methods, as a value, and a chain
  \<open>b.m1(v1).m2(v2)...\<close> of such calls: the first exception ends the chain.
\<close>

datatype op =
  Element string | Id string | Class string | Attr string
  | PseudoClass string | PseudoElement string

fun apply_op :: "op \<Rightarrow> Builder \<Rightarrow> (error + unit) \<times> Builder" where
  "apply_op (Element v) b = element v b"
| "apply_op (Id v) b = id_sel v b"
| "apply_op (Class v) b = class_sel v b"
| "apply_op (Attr v) b = attr v b"
| "apply_op (PseudoClass v) b = pseudoClass v b"
| "apply_op (PseudoElement v) b = pseudoElement v b"

fun run :: "op list \<Rightarrow> Builder \<Rightarrow> (error + unit) \<times> Builder" where
  "run [] b = (Inr (), b)"
| "run (x # xs) b =
     (case apply_op x b of
        (Inl e, b') \<Rightarrow> (Inl e, b')
      | (Inr u, b') \<Rightarrow> run xs b')"

text \<open>
  The specification's side of the comparison: the rank it gives each category, and the
  text it says a fragment renders to.
\<close>

fun spec_rank :: "op \<Rightarrow> nat" where
  "spec_rank (Element v) = 1"
| "spec_rank (Id v) = 2"
| "spec_rank (Class v) = 3"
| "spec_rank (Attr v) = 4"
| "spec_rank (PseudoClass v) = 5"
| "spec_rank (PseudoElement v) = 6"

fun spec_text :: "op \<Rightarrow> string" where
  "spec_text (Element v) = v"
| "spec_text (Id v) = ''#'' @ v"
| "spec_text (Class v) = ''.'' @ v"
| "spec_text (Attr v) = ''['' @ v @ '']''"
| "spec_text (PseudoClass v) = '':'' @ v"
| "spec_text (PseudoElement v) = ''::'' @ v"

text \<open>The type string the code stores for each category.\<close>

fun op_type :: "op \<Rightarrow> string" where
  "op_type (Element v) = ''element''"
| "op_type (Id v) = ''id''"
| "op_type (Class v) = ''class''"
| "op_type (Attr v) = ''attr''"
| "op_type (PseudoClass v) = ''pseudoClass''"
| "op_type (PseudoElement v) = ''pseudoElement''"

text \<open>The entry an append stores when it passes its checks.\<close>

definition fragment :: "op \<Rightarrow> selector" where
  "fragment x = \<lparr> type = op_type x, value_s = spec_text x, priority = Some (spec_rank x) \<rparr>"

text \<open>The ranks of the ranked entries of a builder, in order; raw entries have none.\<close>

definition ranks :: "Builder \<Rightarrow> nat list" where
  "ranks b = List.map_filter priority (selectors b)"

subsection \<open>States the public interface can produce\<close>

text \<open>
  The public interface is the six appends, \<open>stringify\<close> and \<open>combine\<close>. An object is
  created by \<open>new Builder()\<close> in one of the facade's entry points; \<open>raw\<close> is only called
  by \<open>combine\<close>, three times on the object it has just created.
\<close>

inductive reachable :: "Builder \<Rightarrow> bool" where
  r_new: "reachable new_Builder"
| r_combine: "reachable (raw s2 (raw ('' '' @ c @ '' '') (raw s1 new_Builder)))"
| r_append: "reachable b \<Longrightarrow> reachable (snd (apply_op x b))"
| r_stringify: "reachable b \<Longrightarrow> reachable (snd (stringify b))"

section \<open>Properties\<close>

text \<open>The definitions a concrete state is evaluated with.\<close>

lemmas builder_defs =
  new_Builder_def element_def id_sel_def class_sel_def attr_def pseudoClass_def
  pseudoElement_def add_def raw_def isSelectorExist_def isPriorityRight_def

subsection \<open>The loop of stringify\<close>

lemma stringify_loop_drop:
  "stringify_loop sels i s = s @ concat (map value_s (drop i sels))"
proof (induction sels i s rule: stringify_loop.induct)
  case (1 sels i s)
  show ?case
  proof (cases "i < length sels")
    case True
    then have d: "drop i sels = sels ! i # drop (Suc i) sels"
      by (simp add: Cons_nth_drop_Suc)
    have "stringify_loop sels i s = stringify_loop sels (i + 1) (s @ value_s (sels ! i))"
      using True by (subst stringify_loop.simps) simp
    also have "\<dots> = (s @ value_s (sels ! i)) @ concat (map value_s (drop (i + 1) sels))"
      using True by (rule 1)
    finally show ?thesis
      by (simp add: d)
  next
    case False
    then show ?thesis
      by (subst stringify_loop.simps) simp
  qed
qed

lemma fst_stringify: "fst (stringify b) = concat (map value_s (selectors b))"
  by (simp add: stringify_def stringify_loop_drop)

lemma snd_stringify: "snd (stringify b) = b\<lparr>selectors := []\<rparr>"
  by (simp add: stringify_def)

subsection \<open>The two checks\<close>

lemma isPriorityRight_last:
  "isPriorityRight p b = (selectors b \<noteq> [] \<and> js_gt (priority (last (selectors b))) p)"
  by (auto simp: isPriorityRight_def last_conv_nth)

lemma isSelectorExist_set:
  "isSelectorExist t b = (\<exists>s \<in> set (selectors b). type s = t)"
  by (simp add: isSelectorExist_def list_ex_iff)

text \<open>
  All six appends at once: the repeat check (element, id and pseudo-element only), then
  the order check, then the entry \<open>add\<close> pushes.
\<close>

lemma apply_op_eq:
  "apply_op x b =
     (if spec_rank x \<in> {1, 2, 6} \<and> isSelectorExist (op_type x) b
        then (Inl (Error (repeatError b)), b)
      else if isPriorityRight (spec_rank x) b then (Inl (Error (orderError b)), b)
      else (Inr (), b\<lparr>selectors := selectors b @ [fragment x]\<rparr>))"
  by (cases x)
     (simp_all add: element_def id_sel_def class_sel_def attr_def pseudoClass_def
        pseudoElement_def add_def fragment_def)

lemma apply_op_ok:
  assumes "\<not> isPriorityRight (spec_rank x) b"
    and "spec_rank x \<in> {1, 2, 6} \<Longrightarrow> \<not> isSelectorExist (op_type x) b"
  shows "apply_op x b = (Inr (), b\<lparr>selectors := selectors b @ [fragment x]\<rparr>)"
  using assms by (auto simp: apply_op_eq)

lemma op_type_rank: "op_type x = op_type y \<Longrightarrow> spec_rank x = spec_rank y"
  by (cases x; cases y) simp_all

lemma value_fragment: "value_s (fragment x) = spec_text x"
  by (simp add: fragment_def)

subsection \<open>Chains of appends in rank order\<close>

lemma run_appends:
  assumes "sorted (map spec_rank ops)"
    and "\<forall>k \<in> {1, 2, 6}. count_list (map spec_rank ops) k \<le> 1"
    and "\<forall>x \<in> set ops. \<not> isPriorityRight (spec_rank x) b"
    and "\<forall>x \<in> set ops. spec_rank x \<in> {1, 2, 6} \<longrightarrow> \<not> isSelectorExist (op_type x) b"
  shows "run ops b = (Inr (), b\<lparr>selectors := selectors b @ map fragment ops\<rparr>)"
  using assms
proof (induction ops arbitrary: b)
  case Nil
  then show ?case by simp
next
  case (Cons x xs)
  let ?b = "b\<lparr>selectors := selectors b @ [fragment x]\<rparr>"
  have step: "apply_op x b = (Inr (), ?b)"
    using Cons.prems(3,4) by (intro apply_op_ok) auto
  have s: "sorted (map spec_rank xs)"
    using Cons.prems(1) by simp
  have c: "\<forall>k \<in> {1, 2, 6}. count_list (map spec_rank xs) k \<le> 1"
    using Cons.prems(2) by (auto split: if_splits)
  have p: "\<forall>y \<in> set xs. \<not> isPriorityRight (spec_rank y) ?b"
    using Cons.prems(1) by (auto simp: isPriorityRight_last fragment_def)
  have e: "\<forall>y \<in> set xs. spec_rank y \<in> {1, 2, 6} \<longrightarrow> \<not> isSelectorExist (op_type y) ?b"
  proof (intro ballI impI)
    fix y assume y: "y \<in> set xs" and k: "spec_rank y \<in> {1, 2, 6}"
    have old: "\<not> isSelectorExist (op_type y) b"
      using Cons.prems(4) y k by auto
    have "op_type x \<noteq> op_type y"
    proof
      assume "op_type x = op_type y"
      then have eq: "spec_rank x = spec_rank y" by (rule op_type_rank)
      have "spec_rank y \<in> set (map spec_rank xs)" using y by simp
      then have "count_list (map spec_rank xs) (spec_rank y) \<noteq> 0"
        by (simp only: count_list_0_iff not_not)
      moreover have "count_list (map spec_rank (x # xs)) (spec_rank y) \<le> 1"
        using Cons.prems(2) k by blast
      ultimately show False using eq by simp
    qed
    with old show "\<not> isSelectorExist (op_type y) ?b"
      by (auto simp: isSelectorExist_set fragment_def)
  qed
  have "run xs ?b = (Inr (), ?b\<lparr>selectors := selectors ?b @ map fragment xs\<rparr>)"
    using s c p e by (rule Cons.IH)
  with step show ?case by simp
qed

text \<open>
  C1. Take any chain of appends on a new builder whose ranks (element 1, id 2, class 3,
  attribute 4, pseudo-class 5, pseudo-element 6) never decrease and which has at most
  one element, one id and one pseudo-element. No append of the chain throws, and
  \<open>stringify\<close> then returns the texts of the fragments, each formatted as the
  specification says (\<open>spec_text\<close>), concatenated in the order of the appends.
\<close>

theorem appends_in_rank_order_render:
  assumes "sorted (map spec_rank ops)"
    and "count_list (map spec_rank ops) 1 \<le> 1"
    and "count_list (map spec_rank ops) 2 \<le> 1"
    and "count_list (map spec_rank ops) 6 \<le> 1"
  shows "fst (run ops new_Builder) = Inr () \<and>
         fst (stringify (snd (run ops new_Builder))) = concat (map spec_text ops)"
proof -
  have "run ops new_Builder =
      (Inr (), new_Builder\<lparr>selectors := selectors new_Builder @ map fragment ops\<rparr>)"
    using assms
    by (intro run_appends) (auto simp: isPriorityRight_last isSelectorExist_set new_Builder_def)
  then show ?thesis
    by (simp add: fst_stringify new_Builder_def o_def value_fragment)
qed

theorem appends_in_rank_order_render_witness:
  "sorted (map spec_rank [Element ''a'', Id ''m'', Class ''c'', Class ''d'', Attr ''h'',
       PseudoClass ''focus'', PseudoElement ''after'']) \<and>
   fst (run [Element ''a'', Id ''m'', Class ''c'', Class ''d'', Attr ''h'',
       PseudoClass ''focus'', PseudoElement ''after''] new_Builder) = Inr () \<and>
   fst (stringify (snd (run [Element ''a'', Id ''m'', Class ''c'', Class ''d'', Attr ''h'',
       PseudoClass ''focus'', PseudoElement ''after''] new_Builder)))
     = ''a#m.c.d[h]:focus::after''"
  using appends_in_rank_order_render
    [of "[Element ''a'', Id ''m'', Class ''c'', Class ''d'', Attr ''h'',
          PseudoClass ''focus'', PseudoElement ''after'']"]
  by simp

subsection \<open>Reachable states\<close>

lemma ranks_append:
  "ranks (b\<lparr>selectors := selectors b @ [fragment x]\<rparr>) = ranks b @ [spec_rank x]"
  by (simp add: ranks_def List.map_filter_def fragment_def)

lemma ranks_raw: "ranks (raw v b) = ranks b"
  by (simp add: ranks_def List.map_filter_def raw_def add_def)

lemma ranks_new: "ranks new_Builder = []"
  by (simp add: ranks_def List.map_filter_def new_Builder_def)

lemma ranks_empty: "ranks (b\<lparr>selectors := []\<rparr>) = []"
  by (simp add: ranks_def List.map_filter_def)

lemma priority_fragment: "priority (fragment x) = Some (spec_rank x)"
  by (simp add: fragment_def)

lemma spec_rank_le: "spec_rank x \<le> 6"
  by (cases x) simp_all

lemma reachable_messages:
  "reachable b \<Longrightarrow>
     repeatError b = repeatError new_Builder \<and> orderError b = orderError new_Builder"
  by (induction rule: reachable.induct)
     (simp_all add: raw_def add_def apply_op_eq snd_stringify)

lemma reachable_last_rank:
  "reachable b \<Longrightarrow>
     ranks b = [] \<or>
     (selectors b \<noteq> [] \<and> priority (last (selectors b)) = Some (last (ranks b)) \<and>
      (\<forall>p \<in> set (ranks b). p \<le> last (ranks b) \<and> p \<le> 6))"
proof (induction rule: reachable.induct)
  case r_new
  show ?case by (simp add: ranks_new)
next
  case (r_combine s2 c s1)
  show ?case by (simp add: ranks_raw ranks_new)
next
  case (r_append b x)
  show ?case
  proof (cases "fst (apply_op x b)")
    case (Inl e)
    then have "snd (apply_op x b) = b"
      by (auto simp: apply_op_eq split: if_splits)
    with r_append.IH show ?thesis by simp
  next
    case (Inr u)
    then have ok: "\<not> isPriorityRight (spec_rank x) b"
      and s: "snd (apply_op x b) = b\<lparr>selectors := selectors b @ [fragment x]\<rparr>"
      by (auto simp: apply_op_eq split: if_splits)
    have "\<forall>p \<in> set (ranks b). p \<le> spec_rank x \<and> p \<le> 6"
      using r_append.IH ok by (fastforce simp: isPriorityRight_last)
    then show ?thesis
      by (simp add: s ranks_append priority_fragment spec_rank_le)
  qed
next
  case (r_stringify b)
  show ?case by (simp add: snd_stringify ranks_empty)
qed

lemma reachable_run: "reachable b \<Longrightarrow> reachable (snd (run ops b))"
proof (induction ops arbitrary: b)
  case Nil
  then show ?case by simp
next
  case (Cons x xs)
  have r: "reachable (snd (apply_op x b))"
    using Cons.prems by (rule r_append)
  show ?case
  proof (cases "apply_op x b")
    case (Pair res b')
    with r have b': "reachable b'" by simp
    show ?thesis
    proof (cases res)
      case (Inl e)
      with Pair b' show ?thesis by simp
    next
      case (Inr u)
      with Pair Cons.IH [OF b'] show ?thesis by simp
    qed
  qed
qed

lemma Max_ranks:
  assumes "reachable b" and "ranks b \<noteq> []"
  shows "Max (set (ranks b)) = last (ranks b)"
proof (rule Max_eqI)
  show "finite (set (ranks b))" by simp
  show "\<And>y. y \<in> set (ranks b) \<Longrightarrow> y \<le> last (ranks b)"
    using reachable_last_rank [OF assms(1)] assms(2) by auto
  show "last (ranks b) \<in> set (ranks b)"
    using assms(2) by simp
qed

text \<open>
  C2, as amended. In every state the public interface can produce that holds a ranked
  fragment, an append whose rank is below the greatest rank present throws and leaves
  the state as it was: the repeat error when the category is element or id and the
  builder already holds a fragment of that category (that check comes first), the order
  error otherwise. An append whose rank is at least the rank of the last ranked fragment
  passes the order check.
\<close>

theorem order_check_on_reachable:
  assumes "reachable b"
  shows "(ranks b \<noteq> [] \<and> spec_rank x < Max (set (ranks b)) \<longrightarrow>
            apply_op x b =
              (Inl (Error (if spec_rank x \<in> {1, 2} \<and> isSelectorExist (op_type x) b
                           then repeatError new_Builder else orderError new_Builder)), b)) \<and>
         (ranks b \<noteq> [] \<and> last (ranks b) \<le> spec_rank x \<longrightarrow>
            \<not> isPriorityRight (spec_rank x) b)"
proof (cases "ranks b = []")
  case True
  then show ?thesis by simp
next
  case False
  have m: "repeatError b = repeatError new_Builder" "orderError b = orderError new_Builder"
    using reachable_messages [OF assms] by simp_all
  have l: "selectors b \<noteq> []" "priority (last (selectors b)) = Some (last (ranks b))"
    and le6: "last (ranks b) \<le> 6"
    using reachable_last_rank [OF assms] False by auto
  have mx: "Max (set (ranks b)) = last (ranks b)"
    using assms False by (rule Max_ranks)
  have p: "isPriorityRight k b = (k < last (ranks b))" for k
    using l by (simp add: isPriorityRight_last)
  have "spec_rank x < last (ranks b) \<Longrightarrow> spec_rank x \<noteq> 6"
    using le6 by simp
  then show ?thesis
    by (auto simp: apply_op_eq m mx p)
qed

theorem order_check_on_reachable_witness:
  "reachable (snd (run [Class ''k''] new_Builder)) \<and>
   ranks (snd (run [Class ''k''] new_Builder)) = [3] \<and>
   apply_op (Element ''c'') (snd (run [Class ''k''] new_Builder)) =
     (Inl (Error (orderError new_Builder)), snd (run [Class ''k''] new_Builder)) \<and>
   \<not> isPriorityRight (spec_rank (Attr ''z'')) (snd (run [Class ''k''] new_Builder))"
proof -
  have r: "reachable (snd (run [Class ''k''] new_Builder))"
    by (rule reachable_run) (rule r_new)
  have k: "ranks (snd (run [Class ''k''] new_Builder)) = [3]"
    by (simp add: builder_defs ranks_def List.map_filter_def)
  have e: "\<not> isSelectorExist (op_type (Element ''c'')) (snd (run [Class ''k''] new_Builder))"
    by (simp add: builder_defs)
  show ?thesis
    using order_check_on_reachable [OF r, of "Element ''c''"]
      order_check_on_reachable [OF r, of "Attr ''z''"] r k e
    by simp
qed

text \<open>
  The claim as the specification words it, with the order error for every such append,
  fails on \<open>element('a').class('b')\<close> followed by \<open>element('c')\<close>: rank 1 is below the
  greatest rank 3, and the error is the repeat error.
\<close>

theorem order_error_counterexample:
  "reachable (snd (run [Element ''a'', Class ''b''] new_Builder)) \<and>
   ranks (snd (run [Element ''a'', Class ''b''] new_Builder)) = [1, 3] \<and>
   spec_rank (Element ''c'') < Max (set (ranks (snd (run [Element ''a'', Class ''b''] new_Builder)))) \<and>
   fst (apply_op (Element ''c'') (snd (run [Element ''a'', Class ''b''] new_Builder)))
     = Inl (Error (repeatError new_Builder)) \<and>
   repeatError new_Builder \<noteq> orderError new_Builder"
proof -
  have r: "reachable (snd (run [Element ''a'', Class ''b''] new_Builder))"
    by (rule reachable_run) (rule r_new)
  have k: "ranks (snd (run [Element ''a'', Class ''b''] new_Builder)) = [1, 3]"
    by (simp add: builder_defs ranks_def List.map_filter_def)
  have a: "fst (apply_op (Element ''c'') (snd (run [Element ''a'', Class ''b''] new_Builder)))
     = Inl (Error (repeatError new_Builder))"
    by (simp add: builder_defs)
  have n: "repeatError new_Builder \<noteq> orderError new_Builder"
    by (simp add: new_Builder_def)
  show ?thesis
    using r k a n by simp
qed

subsection \<open>The repeat check\<close>

text \<open>
  C3. In every builder state that holds a fragment of category element, a further
  \<open>element\<close> throws the Error with the builder's repeat message and leaves the state as
  it was; so do \<open>id\<close> when an id fragment is held and \<open>pseudoElement\<close> when a
  pseudo-element fragment is held. Nothing is assumed about the other fragments or about
  the place of the first occurrence.
\<close>

theorem second_unique_fragment_repeat_error:
  assumes "s \<in> set (selectors b)"
  shows "(type s = ''element'' \<longrightarrow> element v b = (Inl (Error (repeatError b)), b)) \<and>
         (type s = ''id'' \<longrightarrow> id_sel v b = (Inl (Error (repeatError b)), b)) \<and>
         (type s = ''pseudoElement'' \<longrightarrow> pseudoElement v b = (Inl (Error (repeatError b)), b))"
  using assms
  by (auto simp: element_def id_sel_def pseudoElement_def isSelectorExist_set)

theorem second_unique_fragment_repeat_error_witness:
  "fst (element ''x'' (snd (run [Element ''a'', Id ''i'', PseudoElement ''e''] new_Builder)))
      = Inl (Error (repeatError new_Builder)) \<and>
   fst (id_sel ''x'' (snd (run [Element ''a'', Id ''i'', PseudoElement ''e''] new_Builder)))
      = Inl (Error (repeatError new_Builder)) \<and>
   fst (pseudoElement ''x'' (snd (run [Element ''a'', Id ''i'', PseudoElement ''e''] new_Builder)))
      = Inl (Error (repeatError new_Builder))"
proof -
  let ?e = "\<lparr>type = ''element'', value_s = ''a'', priority = Some 1\<rparr>"
  let ?i = "\<lparr>type = ''id'', value_s = ''#i'', priority = Some 2\<rparr>"
  let ?p = "\<lparr>type = ''pseudoElement'', value_s = ''::e'', priority = Some 6\<rparr>"
  let ?b = "new_Builder\<lparr>selectors := [?e, ?i, ?p]\<rparr>"
  have b: "snd (run [Element ''a'', Id ''i'', PseudoElement ''e''] new_Builder) = ?b"
    by (simp add: builder_defs)
  have m: "repeatError ?b = repeatError new_Builder"
    by simp
  show ?thesis
    unfolding b
    using second_unique_fragment_repeat_error [of ?e ?b "''x''"]
      second_unique_fragment_repeat_error [of ?i ?b "''x''"]
      second_unique_fragment_repeat_error [of ?p ?b "''x''"]
    by (simp add: m)
qed

subsection \<open>Failed appends\<close>

text \<open>
  C7. Whenever one of the six appends throws, whatever the error, the builder is left
  exactly as it was before the call: its fragment sequence and its two messages.
\<close>

theorem failed_append_leaves_state:
  assumes "fst (apply_op x b) = Inl e"
  shows "snd (apply_op x b) = b"
  using assms by (auto simp: apply_op_eq split: if_splits)

theorem failed_append_leaves_state_witness:
  "fst (apply_op (Element ''c'') (snd (run [Class ''k''] new_Builder)))
     = Inl (Error (orderError new_Builder)) \<and>
   selectors (snd (apply_op (Element ''c'') (snd (run [Class ''k''] new_Builder))))
     = [\<lparr>type = ''class'', value_s = ''.k'', priority = Some 3\<rparr>]"
proof -
  have f: "fst (apply_op (Element ''c'') (snd (run [Class ''k''] new_Builder)))
     = Inl (Error (orderError new_Builder))"
    by (simp add: builder_defs)
  have s: "selectors (snd (run [Class ''k''] new_Builder))
     = [\<lparr>type = ''class'', value_s = ''.k'', priority = Some 3\<rparr>]"
    by (simp add: builder_defs)
  show ?thesis
    using failed_append_leaves_state [OF f] f s by simp
qed

subsection \<open>What stringify does to the builder\<close>

text \<open>
  C9. \<open>stringify\<close> leaves the fragment sequence empty, so a second \<open>stringify\<close> with no
  append in between returns the empty string.
\<close>

theorem stringify_one_shot:
  "selectors (snd (stringify b)) = [] \<and> fst (stringify (snd (stringify b))) = ''''"
  by (simp add: fst_stringify snd_stringify)

text \<open>
  C5 says that \<open>stringify\<close> does not change the fragment sequence. On the builder
  \<open>element('a')\<close> it does: the sequence has one entry before the call and none after.
\<close>

theorem stringify_mutates_counterexample:
  "selectors (snd (element ''a'' new_Builder)) = [\<lparr>type = ''element'', value_s = ''a'', priority = Some 1\<rparr>] \<and>
   selectors (snd (stringify (snd (element ''a'' new_Builder)))) = [] \<and>
   selectors (snd (stringify (snd (element ''a'' new_Builder))))
     \<noteq> selectors (snd (element ''a'' new_Builder))"
  by (simp add: builder_defs snd_stringify)

text \<open>
  C5, as amended. \<open>stringify\<close> sets the fragment sequence to the empty sequence and
  changes nothing else of the builder; the sequence is the same before and after the
  call exactly when it was empty before.
\<close>

theorem stringify_clears_sequence:
  "snd (stringify b) = b\<lparr>selectors := []\<rparr> \<and>
   (selectors (snd (stringify b)) = selectors b) = (selectors b = [])"
  by (auto simp: snd_stringify)

subsection \<open>combine\<close>

lemma stringify_at_valid:
  "r < length h \<Longrightarrow>
     stringify_at r h = (Inr (fst (stringify (h ! r))), h[r := (h ! r)\<lparr>selectors := []\<rparr>])"
  by (simp add: stringify_at_def stringify_def)

text \<open>The object combine builds, given the two strings it was handed.\<close>

lemma selectors_raw3:
  "selectors (raw s2 (raw m (raw s1 new_Builder))) =
     [\<lparr>type = ''raw'', value_s = s1, priority = None\<rparr>,
      \<lparr>type = ''raw'', value_s = m, priority = None\<rparr>,
      \<lparr>type = ''raw'', value_s = s2, priority = None\<rparr>]"
  by (simp add: raw_def add_def new_Builder_def)

lemma combine_valid:
  assumes "A < length h" and "B < length h"
  shows "combine A c B h =
     (Inr (length h),
      h[A := (h ! A)\<lparr>selectors := []\<rparr>, B := (h ! B)\<lparr>selectors := []\<rparr>] @
      [raw (if A = B then '''' else fst (stringify (h ! B)))
         (raw ('' '' @ c @ '' '') (raw (fst (stringify (h ! A))) new_Builder))])"
proof -
  let ?n = "length h"
  let ?h1 = "h[A := (h ! A)\<lparr>selectors := []\<rparr>]"
  let ?s1 = "fst (stringify (h ! A))"
  let ?m = "'' '' @ c @ '' ''"
  let ?s2 = "fst (stringify (?h1 ! B))"
  have new: "new_at h = (?n, h @ [new_Builder])"
    by (simp add: new_at_def)
  have st1: "stringify_at A (h @ [new_Builder]) = (Inr ?s1, ?h1 @ [new_Builder])"
    using assms(1) by (simp add: stringify_at_valid nth_append list_update_append)
  have raws: "raw_at ?m ?n (raw_at ?s1 ?n (?h1 @ [new_Builder]))
      = ?h1 @ [raw ?m (raw ?s1 new_Builder)]"
    by (simp add: raw_at_def nth_append list_update_append)
  have st2: "stringify_at B (?h1 @ [raw ?m (raw ?s1 new_Builder)])
      = (Inr ?s2, ?h1[B := (?h1 ! B)\<lparr>selectors := []\<rparr>] @ [raw ?m (raw ?s1 new_Builder)])"
    using assms(2) by (simp add: stringify_at_valid nth_append list_update_append)
  have s2: "?s2 = (if A = B then '''' else fst (stringify (h ! B)))"
    using assms by (simp add: fst_stringify)
  have upd: "?h1[B := (?h1 ! B)\<lparr>selectors := []\<rparr>]
      = h[A := (h ! A)\<lparr>selectors := []\<rparr>, B := (h ! B)\<lparr>selectors := []\<rparr>]"
    using assms by (cases "A = B") simp_all
  show ?thesis
    by (simp only: combine_def new prod.case st1 sum.case raws st2 s2 upd)
       (simp add: raw_at_def nth_append list_update_append)
qed

lemma nth_combine:
  assumes "A < length h" and "B < length h" and "r < length h"
  shows "snd (combine A c B h) ! r =
           (if r = A \<or> r = B then (h ! r)\<lparr>selectors := []\<rparr> else h ! r)"
  using assms by (auto simp: combine_valid nth_append nth_list_update)

lemma nth_combine_new:
  assumes "A < length h" and "B < length h"
  shows "snd (combine A c B h) ! length h =
           raw (if A = B then '''' else fst (stringify (h ! B)))
             (raw ('' '' @ c @ '' '') (raw (fst (stringify (h ! A))) new_Builder))"
  using assms by (simp add: combine_valid nth_append)

lemma length_combine:
  assumes "A < length h" and "B < length h"
  shows "length (snd (combine A c B h)) = Suc (length h)"
  using assms by (simp add: combine_valid)

lemma fst_combine:
  assumes "A < length h" and "B < length h"
  shows "fst (combine A c B h) = Inr (length h)"
  using assms by (simp add: combine_valid)

lemma apply_op_raw3:
  "apply_op x (raw s2 (raw m (raw s1 new_Builder))) =
     (Inr (), raw s2 (raw m (raw s1 new_Builder))
        \<lparr>selectors := selectors (raw s2 (raw m (raw s1 new_Builder))) @ [fragment x]\<rparr>)"
  by (cases x) (simp_all add: apply_op_eq isPriorityRight_last isSelectorExist_set selectors_raw3)

text \<open>
  C4 gives the render of \<open>combine(A, c, B)\<close> as render(A), a space, \<open>c\<close>, a space,
  render(B), for every pair of builders. When both arguments are the same object the
  first \<open>stringify\<close> has emptied it before the second one reads it: for \<open>a = element('div')\<close>,
  \<open>combine(a, '+', a)\<close> renders to \<open>'div + '\<close>, not to \<open>'div + div'\<close>.
\<close>

theorem combine_same_object_counterexample:
  "fst (stringify (snd (element ''div'' new_Builder))) = ''div'' \<and>
   fst (stringify_at 1 (snd (combine 0 ''+'' 0 [snd (element ''div'' new_Builder)])))
     = Inr ''div + '' \<and>
   ''div + '' \<noteq> ''div'' @ '' '' @ ''+'' @ '' '' @ ''div''"
  by (simp add: combine_valid stringify_at_valid fst_stringify builder_defs)

text \<open>
  C4, as amended. For builders \<open>A\<close> and \<open>B\<close> of the heap and every string \<open>c\<close>,
  \<open>combine\<close> returns a new builder, and the render of that builder is the render \<open>A\<close> had
  before the call, a space, \<open>c\<close>, a space, and then the render \<open>B\<close> had before the call
  when \<open>A\<close> and \<open>B\<close> are two objects, and nothing when they are the same object. With
  \<open>c = ' '\<close> and two objects the two renders are three spaces apart.
\<close>

theorem combine_render:
  assumes "A < length h" and "B < length h"
  shows "fst (combine A c B h) = Inr (length h) \<and>
         fst (stringify_at (length h) (snd (combine A c B h))) =
           Inr (fst (stringify (h ! A)) @ '' '' @ c @ '' '' @
                (if A = B then '''' else fst (stringify (h ! B))))"
  using assms
  by (simp add: fst_combine stringify_at_valid length_combine nth_combine_new
        fst_stringify selectors_raw3)

theorem combine_render_witness:
  "fst (stringify (snd (run [Element ''tr'', PseudoClass ''odd''] new_Builder))) = ''tr:odd'' \<and>
   fst (stringify (snd (run [Element ''td''] new_Builder))) = ''td'' \<and>
   fst (stringify_at 2 (snd (combine 0 '' '' 1
       [snd (run [Element ''tr'', PseudoClass ''odd''] new_Builder),
        snd (run [Element ''td''] new_Builder)])))
     = Inr ''tr:odd   td''"
proof -
  let ?h = "[snd (run [Element ''tr'', PseudoClass ''odd''] new_Builder),
             snd (run [Element ''td''] new_Builder)]"
  have a: "fst (stringify (snd (run [Element ''tr'', PseudoClass ''odd''] new_Builder))) = ''tr:odd''"
    by (simp add: fst_stringify builder_defs)
  have b: "fst (stringify (snd (run [Element ''td''] new_Builder))) = ''td''"
    by (simp add: fst_stringify builder_defs)
  have "fst (stringify_at (length ?h) (snd (combine 0 '' '' 1 ?h))) =
           Inr (fst (stringify (?h ! 0)) @ '' '' @ '' '' @ '' '' @
                (if (0::nat) = 1 then '''' else fst (stringify (?h ! 1))))"
    using combine_render [of 0 ?h 1 "'' ''"] by simp
  also have "\<dots> = Inr ''tr:odd   td''"
    by (simp add: fst_stringify builder_defs)
  finally show ?thesis
    using a b by (simp add: numeral_2_eq_2)
qed

text \<open>
  C6 says that \<open>combine\<close> leaves the fragment sequences of its operands as they were.
  It calls \<open>stringify\<close> on both, which empties them: after
  \<open>combine(element('div'), '+', element('p'))\<close> both operands hold no fragment.
\<close>

theorem combine_mutates_counterexample:
  "selectors ([snd (element ''div'' new_Builder), snd (element ''p'' new_Builder)] ! 0)
     = [\<lparr>type = ''element'', value_s = ''div'', priority = Some 1\<rparr>] \<and>
   selectors (snd (combine 0 ''+'' 1
       [snd (element ''div'' new_Builder), snd (element ''p'' new_Builder)]) ! 0) = [] \<and>
   selectors ([snd (element ''div'' new_Builder), snd (element ''p'' new_Builder)] ! 1)
     = [\<lparr>type = ''element'', value_s = ''p'', priority = Some 1\<rparr>] \<and>
   selectors (snd (combine 0 ''+'' 1
       [snd (element ''div'' new_Builder), snd (element ''p'' new_Builder)]) ! 1) = []"
  by (simp add: nth_combine builder_defs)

text \<open>
  C6, as amended. After \<open>combine(A, c, B)\<close> the fragment sequences of \<open>A\<close> and of \<open>B\<close>
  are empty and their other fields are as before; every other object that existed
  before the call is unchanged.
\<close>

theorem combine_clears_operands:
  assumes "A < length h" and "B < length h"
  shows "snd (combine A c B h) ! A = (h ! A)\<lparr>selectors := []\<rparr> \<and>
         snd (combine A c B h) ! B = (h ! B)\<lparr>selectors := []\<rparr> \<and>
         (\<forall>r. r < length h \<and> r \<noteq> A \<and> r \<noteq> B \<longrightarrow> snd (combine A c B h) ! r = h ! r)"
  using assms by (simp add: nth_combine)

theorem combine_clears_operands_witness:
  "selectors (snd (combine 0 ''+'' 2
       [snd (element ''div'' new_Builder), snd (class_sel ''k'' new_Builder),
        snd (element ''p'' new_Builder)]) ! 0) = [] \<and>
   selectors (snd (combine 0 ''+'' 2
       [snd (element ''div'' new_Builder), snd (class_sel ''k'' new_Builder),
        snd (element ''p'' new_Builder)]) ! 2) = [] \<and>
   selectors (snd (combine 0 ''+'' 2
       [snd (element ''div'' new_Builder), snd (class_sel ''k'' new_Builder),
        snd (element ''p'' new_Builder)]) ! 1)
     = [\<lparr>type = ''class'', value_s = ''.k'', priority = Some 3\<rparr>]"
proof -
  let ?h = "[snd (element ''div'' new_Builder), snd (class_sel ''k'' new_Builder),
             snd (element ''p'' new_Builder)]"
  have k: "selectors (?h ! 1) = [\<lparr>type = ''class'', value_s = ''.k'', priority = Some 3\<rparr>]"
    by (simp add: builder_defs)
  have "snd (combine 0 ''+'' 2 ?h) ! 0 = (?h ! 0)\<lparr>selectors := []\<rparr> \<and>
        snd (combine 0 ''+'' 2 ?h) ! 2 = (?h ! 2)\<lparr>selectors := []\<rparr> \<and>
        snd (combine 0 ''+'' 2 ?h) ! 1 = ?h ! 1"
    using combine_clears_operands [of 0 ?h 2 "''+''"] by simp
  then show ?thesis
    using k by simp
qed

text \<open>
  C8 says that \<open>combine\<close> rejects a combinator that is not one of \<open>' '\<close>, \<open>'+'\<close>, \<open>'~'\<close>,
  \<open>'>'\<close>. The code never looks at the combinator: with \<open>'x'\<close> it returns a builder.
\<close>

theorem combine_unvalidated_counterexample:
  "''x'' \<notin> {'' '', ''+'', ''~'', ''>''} \<and>
   fst (combine 0 ''x'' 1
       [snd (element ''div'' new_Builder), snd (element ''p'' new_Builder)]) = Inr 2"
  by (simp add: fst_combine)

text \<open>
  C8, as amended. \<open>combine\<close> does not validate its combinator: for builders \<open>A\<close> and
  \<open>B\<close> of the heap and every string \<open>c\<close>, one of the four tokens or not, it throws
  nothing and returns a new builder with three raw fragments. The first is the render
  \<open>A\<close> had before the call and the second is \<open>c\<close> between two spaces. The third is the
  render \<open>B\<close> had before the call when \<open>A\<close> and \<open>B\<close> are two objects, and the empty
  string when they are the same object.
\<close>

theorem combine_takes_any_combinator:
  assumes "A < length h" and "B < length h"
  shows "fst (combine A c B h) = Inr (length h) \<and>
         map value_s (selectors (snd (combine A c B h) ! length h)) =
           [fst (stringify (h ! A)), '' '' @ c @ '' '',
            if A = B then '''' else fst (stringify (h ! B))]"
  using assms by (simp add: fst_combine nth_combine_new selectors_raw3)

theorem combine_takes_any_combinator_witness:
  "fst (combine 0 ''no combinator'' 1
       [snd (element ''div'' new_Builder), snd (element ''p'' new_Builder)]) = Inr 2 \<and>
   map value_s (selectors (snd (combine 0 ''no combinator'' 1
       [snd (element ''div'' new_Builder), snd (element ''p'' new_Builder)]) ! 2))
     = [''div'', '' no combinator '', ''p''] \<and>
   map value_s (selectors (snd (combine 0 ''x'' 0 [snd (element ''div'' new_Builder)]) ! 1))
     = [''div'', '' x '', '''']"
proof -
  let ?h = "[snd (element ''div'' new_Builder), snd (element ''p'' new_Builder)]"
  let ?g = "[snd (element ''div'' new_Builder)]"
  have a: "fst (stringify (?h ! 0)) = ''div''" "fst (stringify (?h ! 1)) = ''p''"
    by (simp_all add: fst_stringify builder_defs)
  have two: "fst (combine 0 ''no combinator'' 1 ?h) = Inr 2 \<and>
      map value_s (selectors (snd (combine 0 ''no combinator'' 1 ?h) ! 2))
        = [''div'', '' no combinator '', ''p'']"
    using combine_takes_any_combinator [of 0 ?h 1 "''no combinator''"] a
    by (simp add: numeral_2_eq_2)
  have same: "map value_s (selectors (snd (combine 0 ''x'' 0 ?g) ! 1)) = [''div'', '' x '', '''']"
    using combine_takes_any_combinator [of 0 ?g 0 "''x''"] a(1)
    by simp
  show ?thesis
    using two same by simp
qed

text \<open>
  C10. The builder \<open>combine\<close> returns holds three raw fragments, whose type is \<open>'raw'\<close>
  and whose priority is undefined. Any one append on it, of any of the six categories,
  succeeds: the repeat check finds no fragment of the appended category and the
  comparison of the undefined priority with the new rank is false.
\<close>

theorem append_after_combine_succeeds:
  assumes "A < length h" and "B < length h"
  shows "fst (combine A c B h) = Inr (length h) \<and>
         fst (call (apply_op x) (length h) (snd (combine A c B h))) = Inr (length h)"
  using assms
  by (simp add: fst_combine call_def length_combine nth_combine_new apply_op_raw3)

theorem append_after_combine_succeeds_witness:
  "fst (call (apply_op (Element ''a'')) 2 (snd (combine 0 ''>'' 1
       [snd (run [Element ''div'', PseudoElement ''after''] new_Builder),
        snd (element ''p'' new_Builder)]))) = Inr 2"
  using append_after_combine_succeeds
    [of 0 "[snd (run [Element ''div'', PseudoElement ''after''] new_Builder),
            snd (element ''p'' new_Builder)]" 1 "''>''" "Element ''a''"]
  by (simp add: numeral_2_eq_2)

end
